theory Spec2Isabelle
  imports Complex_Main
begin

section \<open>C library functions used by main.cc\<close>

text \<open>
  A C string (\<open>const char *\<close>, or a \<open>char\<close> array holding a NUL-terminated string) is
  modelled by the list of its bytes before the terminating NUL, so the lists that stand
  for C strings hold no NUL byte; a pointer that may be \<open>NULL\<close> is a \<open>string option\<close>,
  with \<open>None\<close> for \<open>NULL\<close>.
\<close>

definition CRLF :: string where
  "CRLF = [CHR 0x0D, CHR 0x0A]"

text \<open>\<open>tolower\<close> in the C locale: only the letters A to Z change.\<close>

definition tolower :: "char \<Rightarrow> char" where
  "tolower c =
     (if (65::nat) \<le> of_char c \<and> of_char c \<le> (90::nat)
      then char_of (of_char c + (32::nat)) else c)"

text \<open>
  \<open>strcasecmp\<close>: the difference of the first pair of bytes that differ after
  \<open>tolower\<close> (the terminating NUL counts as byte 0), and 0 when there is none.
\<close>

fun strcasecmp :: "string \<Rightarrow> string \<Rightarrow> int" where
  "strcasecmp [] [] = 0"
| "strcasecmp [] (y # ys) = - int (of_char (tolower y))"
| "strcasecmp (x # xs) [] = int (of_char (tolower x))"
| "strcasecmp (x # xs) (y # ys) =
     (if tolower x = tolower y then strcasecmp xs ys
      else int (of_char (tolower x)) - int (of_char (tolower y)))"

text \<open>
  \<open>snprintf(dst, n, ...)\<close>, given the string \<open>dst\<close> holds before the call and the
  fully formatted text \<open>s\<close>: at most \<open>n - 1\<close> bytes of \<open>s\<close> are stored, followed by a
  NUL; nothing is stored when \<open>n\<close> is 0. The value returned is the length of \<open>s\<close>,
  whether it was cut or not. The result is the pair of the string \<open>dst\<close> holds after the
  call and the value returned.
\<close>

definition snprintf :: "string \<Rightarrow> nat \<Rightarrow> string \<Rightarrow> string \<times> nat" where
  "snprintf dst n s = (if n = 0 then dst else take (n - 1) s, length s)"

text \<open>
  The conversion \<open>%zu\<close>: a \<open>size_t\<close> in decimal, without leading zeros. The digit
  \<open>d\<close> is the character \<open>'0' + d\<close>.
\<close>

fun zu :: "nat \<Rightarrow> string" where
  "zu n = (if n < 10 then [char_of (48 + n)] else zu (n div 10) @ [char_of (48 + n mod 10)])"

declare zu.simps [simp del]

text \<open>The number a string of decimal digits stands for.\<close>

definition decimal :: "string \<Rightarrow> nat" where
  "decimal s = foldl (\<lambda>a c. 10 * a + (of_char c - 48)) 0 s"

section \<open>PostHeader (main.cc)\<close>

definition program :: string where
  "program = ''pipe''"

definition version :: string where
  "version = ''0.0.1''"

text \<open>
  The fields of class \<open>PostHeader\<close>, named as in the source without the trailing
  underscore. \<open>mac\<close> and \<open>path\<close> are pointers, \<open>NULL\<close> until set, and stand here for
  the strings they point to, which the class never writes; \<open>host\<close> is a \<open>char[64]\<close> and \<open>buffer\<close> a \<open>char[2048]\<close>, each holding a NUL-terminated
  string; \<open>content_length_offset\<close> is an \<open>int\<close> that only ever receives 0 or a value
  returned by \<open>snprintf\<close>, so it is never negative.
\<close>

record PostHeader =
  mac :: "string option"
  path :: "string option"
  compressed :: bool
  persistent :: bool
  host :: string
  buffer :: string
  content_length_offset :: nat

text \<open>
  What a call can do instead of returning: \<open>assert(false)\<close>, a \<open>NULL\<close> pointer read as a
  string, and a write outside \<open>buffer\<close>.
\<close>

datatype fault = AssertionFailed | NullPointer | OutOfBounds

text \<open>The constructor \<open>PostHeader()\<close>.\<close>

definition PostHeader_init :: PostHeader where
  "PostHeader_init =
     \<lparr>mac = None, path = None, compressed = False, persistent = True,
      host = [], buffer = [], content_length_offset = 0\<rparr>"

text \<open>\<open>PostHeader::SetRequest\<close>: the method and the version are not looked at.\<close>

definition SetRequest ::
  "PostHeader \<Rightarrow> string option \<Rightarrow> string option \<Rightarrow> string option \<Rightarrow> fault + PostHeader" where
  "SetRequest h method uri ver =
     (if path h = None then Inr (h\<lparr>path := uri\<rparr>) else Inl AssertionFailed)"

text \<open>
  \<open>PostHeader::SetField\<close>. The field name is a string; the value may be \<open>NULL\<close>, which
  the branch for LETV-ZIP tests for and the branches for Host and Connection read as a
  string.
\<close>

definition SetField :: "PostHeader \<Rightarrow> string \<Rightarrow> string option \<Rightarrow> fault + PostHeader" where
  "SetField h field val =
     (if strcasecmp field ''Host'' = 0 then
        (case val of
           None \<Rightarrow> Inl NullPointer
         | Some v \<Rightarrow> Inr (h\<lparr>host := fst (snprintf (host h) 64 v)\<rparr>))
      else if strcasecmp field ''LETV-TV-MAC'' = 0 \<and> mac h = None then
        Inr (h\<lparr>mac := val\<rparr>)
      else if strcasecmp field ''LETV-ZIP'' = 0 then
        (if compressed h \<noteq> (val \<noteq> None)
         then Inr (h\<lparr>content_length_offset := 0, compressed := (val \<noteq> None)\<rparr>)
         else Inr h)
      else if strcasecmp field ''Connection'' = 0 then
        (case val of
           None \<Rightarrow> Inl NullPointer
         | Some v \<Rightarrow>
             (if persistent h \<noteq> (strcasecmp v ''close'' \<noteq> 0)
              then Inr (h\<lparr>content_length_offset := 0,
                           persistent := (strcasecmp v ''close'' \<noteq> 0)\<rparr>)
              else Inr h))
      else Inl AssertionFailed)"

text \<open>
  The format \<open>pattern\<close> of \<open>Generate\<close> with its seven arguments filled in: the text the
  first \<open>snprintf\<close> formats.
\<close>

definition pattern ::
  "string \<Rightarrow> string \<Rightarrow> string \<Rightarrow> string \<Rightarrow> string \<Rightarrow> string \<Rightarrow> string \<Rightarrow> string" where
  "pattern a1 a2 a3 a4 a5 a6 a7 =
     ''POST '' @ a1 @ '' HTTP/1.1'' @ CRLF @
     ''Host: '' @ a2 @ CRLF @
     ''User-Agent: '' @ a3 @ ''/'' @ a4 @ CRLF @
     ''Accept: */*'' @ CRLF @
     ''LETV-TV-MAC: '' @ a5 @ CRLF @
     a6 @
     a7 @
     ''Content-Length: ''"

text \<open>
  The first half of \<open>PostHeader::Generate\<close> (the \<open>if (!content_length_offset)\<close> block):
  with no prefix memoized, the prefix is formatted into \<open>buffer\<close> and the value
  \<open>snprintf\<close> returns becomes \<open>content_length_offset\<close>.
\<close>

definition Generate_prefix :: "PostHeader \<Rightarrow> fault + PostHeader" where
  "Generate_prefix h =
     (if content_length_offset h = 0 then
        (case path h of
           None \<Rightarrow> Inl NullPointer
         | Some p \<Rightarrow>
             (case mac h of
                None \<Rightarrow> Inl NullPointer
              | Some m \<Rightarrow>
                  Inr (h\<lparr>buffer :=
                          fst (snprintf (buffer h) 2048
                            (pattern p (host h) program version m
                              (if compressed h then ''LETV-ZIP: 1'' @ CRLF else [])
                              (if persistent h then [] else ''Connection: close'' @ CRLF))),
                        content_length_offset :=
                          snd (snprintf (buffer h) 2048
                            (pattern p (host h) program version m
                              (if compressed h then ''LETV-ZIP: 1'' @ CRLF else [])
                              (if persistent h then [] else ''Connection: close'' @ CRLF)))\<rparr>)))
      else Inr h)"

text \<open>
  The second \<open>snprintf\<close> of \<open>Generate\<close> writes at \<open>buffer + off\<close> with the size
  \<open>sizeof(buffer) - off\<close>. With \<open>off\<close> above 2048 the pointer is outside the array and the
  unsigned size wraps around. Otherwise the string in \<open>buffer\<close> keeps its first \<open>off\<close>
  bytes and continues with what \<open>snprintf\<close> stored; when the string ended before \<open>off\<close>,
  its terminator stays where it was and the string is unchanged.
\<close>

definition write_tail :: "string \<Rightarrow> nat \<Rightarrow> string \<Rightarrow> string" where
  "write_tail buf off s =
     (if off \<le> length buf then take off buf @ fst (snprintf (drop off buf) (2048 - off) s)
      else buf)"

text \<open>
  \<open>PostHeader::Generate\<close>: the new object, the string returned (the one in \<open>buffer\<close>)
  and the value stored through \<open>head_size\<close> when that pointer is not \<open>NULL\<close>.
\<close>

definition Generate :: "PostHeader \<Rightarrow> nat \<Rightarrow> fault + (PostHeader \<times> string \<times> nat)" where
  "Generate h body_size =
     (case Generate_prefix h of
        Inl e \<Rightarrow> Inl e
      | Inr h1 \<Rightarrow>
          (if 2048 < content_length_offset h1 then Inl OutOfBounds
           else
             Inr (h1\<lparr>buffer := write_tail (buffer h1) (content_length_offset h1)
                                   (zu body_size @ CRLF @ CRLF)\<rparr>,
                  write_tail (buffer h1) (content_length_offset h1)
                    (zu body_size @ CRLF @ CRLF),
                  content_length_offset h1 +
                    snd (snprintf (drop (content_length_offset h1) (buffer h1))
                           (2048 - content_length_offset h1) (zu body_size @ CRLF @ CRLF)))))"

text \<open>
  The header the wire format asks for, written out from its description: the request
  line, Host, User-Agent, Accept, the client identifier, the compression flag when
  compression is on, \<open>Connection: close\<close> when the connection is not persistent, and
  Content-Length with the blank line. \<open>Generate\<close> is compared with it.
\<close>

definition request_header :: "string \<Rightarrow> string \<Rightarrow> string \<Rightarrow> bool \<Rightarrow> bool \<Rightarrow> nat \<Rightarrow> string" where
  "request_header uri hst m zipped keep n =
     ''POST '' @ uri @ '' HTTP/1.1'' @ CRLF @
     ''Host: '' @ hst @ CRLF @
     ''User-Agent: pipe/0.0.1'' @ CRLF @
     ''Accept: */*'' @ CRLF @
     ''LETV-TV-MAC: '' @ m @ CRLF @
     (if zipped then ''LETV-ZIP: 1'' @ CRLF else []) @
     (if keep then [] else ''Connection: close'' @ CRLF) @
     ''Content-Length: '' @ zu n @ CRLF @ CRLF"

text \<open>
  The text the first \<open>snprintf\<close> of \<open>Generate\<close> formats for an object whose \<open>path\<close> and
  \<open>mac\<close> point to \<open>uri\<close> and \<open>m\<close>.
\<close>

definition prefix_of :: "PostHeader \<Rightarrow> string \<Rightarrow> string \<Rightarrow> string" where
  "prefix_of h uri m =
     pattern uri (host h) program version m
       (if compressed h then ''LETV-ZIP: 1'' @ CRLF else [])
       (if persistent h then [] else ''Connection: close'' @ CRLF)"

text \<open>
  The memoized prefix of an object is current when there is none, or when the bytes of
  the buffer before \<open>content_length_offset\<close> are the prefix of the fields as they are
  now.
\<close>

definition prefix_current :: "PostHeader \<Rightarrow> string \<Rightarrow> string \<Rightarrow> bool" where
  "prefix_current h uri m =
     (content_length_offset h = 0 \<or>
      (content_length_offset h = length (prefix_of h uri m) \<and>
       take (content_length_offset h) (buffer h) = prefix_of h uri m))"

text \<open>
  A client of the class: a sequence of calls on one object, in order, up to the first
  call that does not return. The result is the object after the last call and what each
  \<open>Generate\<close> returned (the string and \<open>head_size\<close>).
\<close>

datatype call =
    Call_SetRequest "string option" "string option" "string option"
  | Call_SetField string "string option"
  | Call_Generate nat

fun calls :: "PostHeader \<Rightarrow> call list \<Rightarrow> fault + (PostHeader \<times> (string \<times> nat) list)" where
  "calls h [] = Inr (h, [])"
| "calls h (Call_SetRequest m u v # cs) =
     (case SetRequest h m u v of Inl e \<Rightarrow> Inl e | Inr h' \<Rightarrow> calls h' cs)"
| "calls h (Call_SetField f v # cs) =
     (case SetField h f v of Inl e \<Rightarrow> Inl e | Inr h' \<Rightarrow> calls h' cs)"
| "calls h (Call_Generate n # cs) =
     (case Generate h n of
        Inl e \<Rightarrow> Inl e
      | Inr r \<Rightarrow>
          (case calls (fst r) cs of
             Inl e \<Rightarrow> Inl e
           | Inr q \<Rightarrow> Inr (fst q, snd r # snd q)))"

text \<open>Calls that set the Host field to a string, and calls of \<open>Generate\<close>.\<close>

fun host_or_generate :: "call \<Rightarrow> bool" where
  "host_or_generate (Call_SetField f v) = (strcasecmp f ''Host'' = 0 \<and> v \<noteq> None)"
| "host_or_generate (Call_Generate n) = True"
| "host_or_generate (Call_SetRequest m u v) = False"

text \<open>Calls of \<open>SetField\<close> with one of the four field names the class knows.\<close>

fun known_field :: "call \<Rightarrow> bool" where
  "known_field (Call_SetField f v) =
     (strcasecmp f ''Host'' = 0 \<or> strcasecmp f ''LETV-TV-MAC'' = 0 \<or>
      strcasecmp f ''LETV-ZIP'' = 0 \<or> strcasecmp f ''Connection'' = 0)"
| "known_field (Call_Generate n) = False"
| "known_field (Call_SetRequest m u v) = False"

text \<open>Calls of \<open>SetField\<close> for the MAC field.\<close>

fun sets_mac :: "call \<Rightarrow> bool" where
  "sets_mac (Call_SetField f v) = (strcasecmp f ''LETV-TV-MAC'' = 0)"
| "sets_mac (Call_Generate n) = False"
| "sets_mac (Call_SetRequest m u v) = False"

text \<open>Calls of \<open>SetRequest\<close>, and calls of \<open>Generate\<close>.\<close>

fun is_SetRequest :: "call \<Rightarrow> bool" where
  "is_SetRequest (Call_SetRequest m u v) = True"
| "is_SetRequest (Call_SetField f v) = False"
| "is_SetRequest (Call_Generate n) = False"

fun is_Generate :: "call \<Rightarrow> bool" where
  "is_Generate (Call_Generate n) = True"
| "is_Generate (Call_SetField f v) = False"
| "is_Generate (Call_SetRequest m u v) = False"

section \<open>HttpPipe (pipe.h): the parts of the engine the specification describes\<close>

text \<open>
  pipe.h declares class \<open>HttpPipe\<close>; the bodies of its member functions are in no
  source file at hand. The definitions of this section follow the specification's
  description of them, with the names of pipe.h.
\<close>

subsection \<open>RateGovernor\<close>

text \<open>
  Modelled from the spec: the body of the pacing computation of \<open>HttpPipe\<close> (the use of
  \<open>transfer_rate_\<close> and \<open>milestone\<close>) is missing. The allowance of a tick is
  \<open>R \<sqdot> \<Delta>t / 1_000_000\<close>, rounded down, clamped to the remaining unsent body bytes and
  to the I/O buffer capacity; \<open>dt\<close> is in microseconds.
\<close>

definition allowance :: "nat \<Rightarrow> nat \<Rightarrow> nat \<Rightarrow> nat \<Rightarrow> nat" where
  "allowance transfer_rate dt remaining buffer_size =
     (let n = transfer_rate * dt div 1000000;
          n1 = (if remaining < n then remaining else n)
      in if buffer_size < n1 then buffer_size else n1)"

subsection \<open>TransferWindowGuard\<close>

text \<open>
  Modelled from the spec: the body of \<open>HttpPipe::CheckTransfer\<close> and the part of
  \<open>Serve\<close> that counts transfers are missing. A tick is idle or busy; the counters are
  the two counts of transfers performed in the current window; \<open>idle_transfer\<close> and
  \<open>busy_transfer\<close> are the configured limits.
\<close>

datatype tick = Idle | Busy

record counters =
  idle_transfer_n :: nat
  busy_transfer_n :: nat

text \<open>
  Modelled from the spec: a transfer is allowed if (tick is idle AND idleCount <
  idleLimit) OR (tick is busy AND busyCount < busyLimit).
\<close>

definition CheckTransfer :: "nat \<Rightarrow> nat \<Rightarrow> tick \<Rightarrow> counters \<Rightarrow> bool" where
  "CheckTransfer idle_transfer busy_transfer t c =
     ((t = Idle \<and> idle_transfer_n c < idle_transfer) \<or>
      (t = Busy \<and> busy_transfer_n c < busy_transfer))"

text \<open>
  Modelled from the spec: the counts are those of the transfers already performed in
  the current window, so a permitted transfer adds one to the count of its kind.
\<close>

definition count_transfer :: "tick \<Rightarrow> counters \<Rightarrow> counters" where
  "count_transfer t c =
     (case t of
        Idle \<Rightarrow> c\<lparr>idle_transfer_n := Suc (idle_transfer_n c)\<rparr>
      | Busy \<Rightarrow> c\<lparr>busy_transfer_n := Suc (busy_transfer_n c)\<rparr>)"

text \<open>Modelled from the spec: counts reset to zero at the start of each window.\<close>

definition window_start :: counters where
  "window_start = \<lparr>idle_transfer_n = 0, busy_transfer_n = 0\<rparr>"

text \<open>
  Modelled from the spec: the part of \<open>Serve\<close> that consults the guard at each tick is
  missing. The ticks of one window, from the counters \<open>c\<close>: each tick with the decision
  taken for it; a permitted transfer is performed and counted.
\<close>

fun window :: "nat \<Rightarrow> nat \<Rightarrow> counters \<Rightarrow> tick list \<Rightarrow> (tick \<times> bool) list" where
  "window il bl c [] = []"
| "window il bl c (t # ts) =
     (if CheckTransfer il bl t c then (t, True) # window il bl (count_transfer t c) ts
      else (t, False) # window il bl c ts)"

text \<open>
  Modelled from the spec: the same loop, giving the counters after the ticks of a
  window.
\<close>

fun window_end :: "nat \<Rightarrow> nat \<Rightarrow> counters \<Rightarrow> tick list \<Rightarrow> counters" where
  "window_end il bl c [] = c"
| "window_end il bl c (t # ts) =
     (if CheckTransfer il bl t c then window_end il bl (count_transfer t c) ts
      else window_end il bl c ts)"

text \<open>
  Modelled from the spec: counts reset to zero at the start of each window. A run of
  several windows, given the ticks of each: every window starts from the reset counters.
\<close>

definition windows :: "nat \<Rightarrow> nat \<Rightarrow> tick list list \<Rightarrow> (tick \<times> bool) list list" where
  "windows il bl tss = map (window il bl window_start) tss"

text \<open>The number of transfers of kind \<open>t\<close> permitted among the decisions \<open>ds\<close>.\<close>

definition transfers :: "tick \<Rightarrow> (tick \<times> bool) list \<Rightarrow> nat" where
  "transfers t ds = length (filter (\<lambda>d. d = (t, True)) ds)"

subsection \<open>Rollback and the delivery of the input\<close>

text \<open>
  Modelled from the spec: the bodies of \<open>HttpPipe::Serve\<close>, \<open>SendRequest\<close>,
  \<open>SendBody\<close>, \<open>HandleError\<close>, \<open>Rollback\<close> and \<open>ZipCompress\<close> are missing. The state
  keeps what the data model names. \<open>inbuf\<close> is the input read and not yet acknowledged;
  \<open>outbuf\<close> is the body of the request being sent, the raw slice of the input or its
  compressed copy; \<open>in_flight\<close> says that a transaction owns the first bytes of \<open>inbuf\<close>,
  \<open>sending\<close> that its request is framed and on the socket, \<open>zipped\<close> that the header of
  the request carries the compression flag; \<open>out_offset\<close> and \<open>content_length\<close> are
  the body offset and the body length of the output frame, \<open>content_length_backup\<close> the
  backup of the original (uncompressed) length; \<open>connect_retry_n\<close> is the retry counter.
  Two fields stand for the server: \<open>received\<close>, the body bytes it has got on the current
  connection, and \<open>bodies\<close>, the bodies of the requests it has received whole, each with
  the compression flag of its header.
\<close>

record HttpPipe =
  inbuf :: string
  outbuf :: string
  in_flight :: bool
  sending :: bool
  zipped :: bool
  out_offset :: nat
  content_length :: nat
  content_length_backup :: nat
  connect_retry_n :: nat
  received :: string
  bodies :: "(bool \<times> string) list"


















section \<open>Startup (main.cc)\<close>










text \<open>
  The variables of the anonymous namespace that \<open>ParseOptions\<close> sets, with their initial
  values; \<open>destination\<close> is a \<open>char[1024]\<close> holding a string.
\<close>

record globals =
  enable_verbose :: bool
  short_transaction :: bool
  destination :: string
  buffer_size :: nat
  transfer_rate :: nat
  connect_retry :: nat
  idle_transfer_interval :: nat
  idle_transfer_idle_limit :: nat
  idle_transfer_busy_limit :: nat
  zip_level :: nat






section \<open>Field names are matched without regard to case\<close>

lemma tolower_Char:
  "tolower (Char b0 b1 b2 b3 b4 b5 b6 b7) =
     (if (65::nat) \<le> of_char (Char b0 b1 b2 b3 b4 b5 b6 b7) \<and>
         of_char (Char b0 b1 b2 b3 b4 b5 b6 b7) \<le> (90::nat)
      then char_of (of_char (Char b0 b1 b2 b3 b4 b5 b6 b7) + (32::nat))
      else Char b0 b1 b2 b3 b4 b5 b6 b7)"
  by (rule tolower_def)

lemma of_char_eq_0: "(of_char c = (0::nat)) = (c = CHR 0x00)"
  using of_char_eq_iff [of c "CHR 0x00", where ?'a = nat] by simp

lemma strcasecmp_eq0_Cons:
  "strcasecmp f (y # ys) = 0 \<longleftrightarrow>
     (case f of
        [] \<Rightarrow> tolower y = CHR 0x00
      | x # xs \<Rightarrow> tolower x = tolower y \<and> strcasecmp xs ys = 0)"
  by (cases f) (simp_all add: of_char_eq_0)

lemma strcasecmp_same_letters: "map tolower s = map tolower t \<Longrightarrow> strcasecmp s t = 0"
  by (induction s t rule: strcasecmp.induct) auto

lemma Host_not_MAC: "strcasecmp f ''Host'' = 0 \<Longrightarrow> strcasecmp f ''LETV-TV-MAC'' \<noteq> 0"
  by (auto simp: strcasecmp_eq0_Cons tolower_Char char_of_def bit_0 split: list.splits)

lemma ZIP_not_MAC: "strcasecmp f ''LETV-ZIP'' = 0 \<Longrightarrow> strcasecmp f ''LETV-TV-MAC'' \<noteq> 0"
  by (auto simp: strcasecmp_eq0_Cons tolower_Char char_of_def bit_0 split: list.splits)

lemma ZIP_not_Host: "strcasecmp f ''LETV-ZIP'' = 0 \<Longrightarrow> strcasecmp f ''Host'' \<noteq> 0"
  by (auto simp: strcasecmp_eq0_Cons tolower_Char char_of_def bit_0 split: list.splits)

lemma Connection_not_Host: "strcasecmp f ''Connection'' = 0 \<Longrightarrow> strcasecmp f ''Host'' \<noteq> 0"
  by (auto simp: strcasecmp_eq0_Cons tolower_Char char_of_def bit_0 split: list.splits)

lemma Connection_not_MAC:
  "strcasecmp f ''Connection'' = 0 \<Longrightarrow> strcasecmp f ''LETV-TV-MAC'' \<noteq> 0"
  by (auto simp: strcasecmp_eq0_Cons tolower_Char char_of_def bit_0 split: list.splits)

lemma Connection_not_ZIP: "strcasecmp f ''Connection'' = 0 \<Longrightarrow> strcasecmp f ''LETV-ZIP'' \<noteq> 0"
  by (auto simp: strcasecmp_eq0_Cons tolower_Char char_of_def bit_0 split: list.splits)

text \<open>The facts that evaluate the model on concrete strings.\<close>

lemmas evaluate =
  Generate_def Generate_prefix_def PostHeader_init_def pattern_def snprintf_def
  write_tail_def CRLF_def program_def version_def zu.simps request_header_def prefix_of_def
  char_of_def bit_0 SetField_def SetRequest_def tolower_def

section \<open>What SetField and Generate leave alone\<close>

lemma SetField_Host:
  "strcasecmp f ''Host'' = 0 \<Longrightarrow> SetField h f (Some v) = Inr (h\<lparr>host := take 63 v\<rparr>)"
  by (simp add: SetField_def snprintf_def)

lemma SetField_path: "SetField h f v = Inr h1 \<Longrightarrow> path h1 = path h"
  by (auto simp: SetField_def split: if_splits option.splits)

lemma SetField_mac:
  "SetField h f v = Inr h1 \<Longrightarrow> strcasecmp f ''LETV-TV-MAC'' \<noteq> 0 \<Longrightarrow> mac h1 = mac h"
  by (auto simp: SetField_def split: if_splits option.splits)

lemma Generate_prefix_path: "Generate_prefix h = Inr h1 \<Longrightarrow> path h1 = path h"
  by (auto simp: Generate_prefix_def split: if_splits option.splits)

lemma Generate_path: "Generate h n = Inr r \<Longrightarrow> path (fst r) = path h"
  by (auto simp: Generate_def dest: Generate_prefix_path split: sum.splits if_splits)

lemma calls_path:
  "calls h cs = Inr r \<Longrightarrow> \<not> list_ex is_SetRequest cs \<Longrightarrow> path (fst r) = path h"
proof (induction cs arbitrary: h r)
  case Nil
  then show ?case by auto
next
  case (Cons c cs)
  show ?case
  proof (cases c)
    case (Call_SetRequest m u v)
    then show ?thesis using Cons.prems by simp
  next
    case (Call_SetField f v)
    then obtain h1 where h1: "SetField h f v = Inr h1" and r: "calls h1 cs = Inr r"
      using Cons.prems by (auto split: sum.splits)
    have "path (fst r) = path h1"
      using Cons.IH [OF r] Cons.prems by simp
    then show ?thesis using SetField_path [OF h1] by simp
  next
    case (Call_Generate n)
    then obtain g q where g: "Generate h n = Inr g" and q: "calls (fst g) cs = Inr q"
      and r: "r = (fst q, snd g # snd q)"
      using Cons.prems by (auto split: sum.splits)
    have "path (fst q) = path (fst g)"
      using Cons.IH [OF q] Cons.prems by simp
    then show ?thesis using Generate_path [OF g] r by simp
  qed
qed

section \<open>SetRequest\<close>

text \<open>
  C8. The first call of \<open>SetRequest\<close> on an object records the URI as the request path,
  whatever \<open>SetField\<close> and \<open>Generate\<close> calls came before it; a call with the path
  already set ends in \<open>assert(false)\<close>, so a second call does, whatever \<open>SetField\<close> and
  \<open>Generate\<close> calls lie between the two; and this is the only way to reach that
  assertion: with at most one call per object it is not reached.
\<close>

theorem SetRequest_once:
  "(path h = None \<longrightarrow> SetRequest h m u v = Inr (h\<lparr>path := u\<rparr>)) \<and>
   (SetRequest h m u v = Inl AssertionFailed \<longleftrightarrow> path h \<noteq> None) \<and>
   SetRequest PostHeader_init m u v = Inr (PostHeader_init\<lparr>path := u\<rparr>) \<and>
   (SetRequest h m (Some p) v = Inr h1 \<and> calls h1 cs1 = Inr (h3, outs1) \<and>
    \<not> list_ex is_SetRequest cs1 \<longrightarrow>
      SetRequest h3 m' u' v' = Inl AssertionFailed) \<and>
   (calls PostHeader_init cs = Inr (h2, outs) \<and> \<not> list_ex is_SetRequest cs \<longrightarrow>
      SetRequest h2 m u v = Inr (h2\<lparr>path := u\<rparr>))"
proof -
  have first: "path h2 = None"
    if "calls PostHeader_init cs = Inr (h2, outs)" and "\<not> list_ex is_SetRequest cs"
    using calls_path [OF that] by (simp add: PostHeader_init_def)
  have second: "path h3 = Some p"
    if "SetRequest h m (Some p) v = Inr h1" and "calls h1 cs1 = Inr (h3, outs1)"
      and "\<not> list_ex is_SetRequest cs1"
  proof -
    have "path h1 = Some p"
      using that(1) by (auto simp: SetRequest_def split: if_splits)
    then show ?thesis
      using calls_path [OF that(2,3)] by simp
  qed
  have a: "path h = None \<longrightarrow> SetRequest h m u v = Inr (h\<lparr>path := u\<rparr>)"
    by (simp add: SetRequest_def)
  have b: "SetRequest h m u v = Inl AssertionFailed \<longleftrightarrow> path h \<noteq> None"
    by (simp add: SetRequest_def)
  have c: "SetRequest PostHeader_init m u v = Inr (PostHeader_init\<lparr>path := u\<rparr>)"
    by (simp add: SetRequest_def PostHeader_init_def)
  have d: "SetRequest h3 m' u' v' = Inl AssertionFailed"
    if "SetRequest h m (Some p) v = Inr h1 \<and> calls h1 cs1 = Inr (h3, outs1) \<and>
      \<not> list_ex is_SetRequest cs1"
    using second that by (simp add: SetRequest_def)
  have e: "SetRequest h2 m u v = Inr (h2\<lparr>path := u\<rparr>)"
    if "calls PostHeader_init cs = Inr (h2, outs) \<and> \<not> list_ex is_SetRequest cs"
    using first that by (simp add: SetRequest_def)
  show ?thesis
    using a b c d e by blast
qed

theorem SetRequest_once_witness:
  "path PostHeader_init = None \<and>
   SetRequest PostHeader_init (Some ''POST'') (Some ''/upload'') (Some ''HTTP/1.1'') =
     Inr (PostHeader_init\<lparr>path := Some ''/upload''\<rparr>) \<and>
   calls (PostHeader_init\<lparr>path := Some ''/upload''\<rparr>)
       [Call_SetField ''Host'' (Some ''example.com'')] =
     Inr (PostHeader_init\<lparr>path := Some ''/upload'', host := ''example.com''\<rparr>, []) \<and>
   SetRequest (PostHeader_init\<lparr>path := Some ''/upload'', host := ''example.com''\<rparr>)
       (Some ''POST'') (Some ''/other'') (Some ''HTTP/1.1'') =
     Inl AssertionFailed \<and>
   calls PostHeader_init [Call_SetField ''Connection'' (Some ''close'')] =
     Inr (PostHeader_init\<lparr>content_length_offset := 0, persistent := False\<rparr>, []) \<and>
   SetRequest (PostHeader_init\<lparr>content_length_offset := 0, persistent := False\<rparr>)
       (Some ''POST'') (Some ''/upload'') (Some ''HTTP/1.1'') =
     Inr (PostHeader_init\<lparr>content_length_offset := 0, persistent := False,
            path := Some ''/upload''\<rparr>)"
  using SetRequest_once [of PostHeader_init "Some ''POST''" "Some ''/upload''" "Some ''HTTP/1.1''"
      "''/upload''" "PostHeader_init\<lparr>path := Some ''/upload''\<rparr>"
      "[Call_SetField ''Host'' (Some ''example.com'')]"
      "PostHeader_init\<lparr>path := Some ''/upload'', host := ''example.com''\<rparr>" "[]"
      "Some ''POST''" "Some ''/other''" "Some ''HTTP/1.1''"
      "[Call_SetField ''Connection'' (Some ''close'')]"
      "PostHeader_init\<lparr>content_length_offset := 0, persistent := False\<rparr>" "[]"]
  by (simp add: evaluate)

section \<open>The assertion of SetField\<close>

lemma SetField_assert_iff:
  "SetField h f v = Inl AssertionFailed \<longleftrightarrow>
     strcasecmp f ''Host'' \<noteq> 0 \<and>
     \<not> (strcasecmp f ''LETV-TV-MAC'' = 0 \<and> mac h = None) \<and>
     strcasecmp f ''LETV-ZIP'' \<noteq> 0 \<and>
     strcasecmp f ''Connection'' \<noteq> 0"
  by (auto simp: SetField_def split: option.splits)

lemma calls_no_assertion:
  "list_all known_field cs \<Longrightarrow>
   length (filter sets_mac cs) \<le> (if mac h = None then 1 else 0) \<Longrightarrow>
   calls h cs \<noteq> Inl AssertionFailed"
proof (induction cs arbitrary: h)
  case Nil
  then show ?case by simp
next
  case (Cons c cs)
  from Cons.prems(1) obtain f v where c: "c = Call_SetField f v"
    by (cases c) simp_all
  have known: "strcasecmp f ''Host'' = 0 \<or> strcasecmp f ''LETV-TV-MAC'' = 0 \<or>
      strcasecmp f ''LETV-ZIP'' = 0 \<or> strcasecmp f ''Connection'' = 0"
    using Cons.prems(1) c by simp
  have rest: "list_all known_field cs"
    using Cons.prems(1) by simp
  show ?case
  proof (cases "SetField h f v")
    case (Inl e)
    have "mac h = None" if "strcasecmp f ''LETV-TV-MAC'' = 0"
      using that Cons.prems(2) c by (auto split: if_splits)
    then have "e \<noteq> AssertionFailed"
      using Inl known SetField_assert_iff [of h f v] by auto
    then show ?thesis using Inl c by simp
  next
    case (Inr h1)
    have "length (filter sets_mac cs) \<le> (if mac h1 = None then 1 else 0)"
    proof (cases "strcasecmp f ''LETV-TV-MAC'' = 0")
      case True
      then show ?thesis using Cons.prems(2) c by (auto split: if_splits)
    next
      case False
      then show ?thesis
        using Cons.prems(2) c SetField_mac [OF Inr False] by simp
    qed
    then have "calls h1 cs \<noteq> Inl AssertionFailed"
      using Cons.IH [OF rest] by simp
    then show ?thesis using Inr c by simp
  qed
qed

text \<open>
  C9. \<open>SetField\<close> reaches \<open>assert(false)\<close> exactly for a field name that is none of
  Host, LETV-TV-MAC, LETV-ZIP and Connection (compared without regard to case) and for
  LETV-TV-MAC when the MAC pointer is already set. A sequence of \<open>SetField\<close> calls on a
  new object that names only these four fields, LETV-TV-MAC at most once, does not reach
  the assertion.
\<close>

theorem SetField_assertion:
  "(SetField h f v = Inl AssertionFailed \<longleftrightarrow>
      (strcasecmp f ''Host'' \<noteq> 0 \<and> strcasecmp f ''LETV-TV-MAC'' \<noteq> 0 \<and>
       strcasecmp f ''LETV-ZIP'' \<noteq> 0 \<and> strcasecmp f ''Connection'' \<noteq> 0) \<or>
      (strcasecmp f ''LETV-TV-MAC'' = 0 \<and> mac h \<noteq> None)) \<and>
   (list_all known_field cs \<and> length (filter sets_mac cs) \<le> 1 \<longrightarrow>
      calls PostHeader_init cs \<noteq> Inl AssertionFailed)"
proof -
  have "calls PostHeader_init cs \<noteq> Inl AssertionFailed"
    if "list_all known_field cs" and "length (filter sets_mac cs) \<le> 1"
    using calls_no_assertion [OF that(1), of PostHeader_init] that(2)
    by (simp add: PostHeader_init_def)
  moreover have "SetField h f v = Inl AssertionFailed \<longleftrightarrow>
      (strcasecmp f ''Host'' \<noteq> 0 \<and> strcasecmp f ''LETV-TV-MAC'' \<noteq> 0 \<and>
       strcasecmp f ''LETV-ZIP'' \<noteq> 0 \<and> strcasecmp f ''Connection'' \<noteq> 0) \<or>
      (strcasecmp f ''LETV-TV-MAC'' = 0 \<and> mac h \<noteq> None)"
    using SetField_assert_iff [of h f v] Host_not_MAC [of f] ZIP_not_MAC [of f]
      Connection_not_MAC [of f]
    by auto
  ultimately show ?thesis by blast
qed

theorem SetField_assertion_witness:
  "SetField PostHeader_init ''Content-Type'' (Some ''text/plain'') = Inl AssertionFailed \<and>
   strcasecmp ''Content-Type'' ''Host'' \<noteq> 0 \<and>
   SetField (PostHeader_init\<lparr>mac := Some ''0a1b2c3d4e5f''\<rparr>) ''letv-tv-mac'' (Some ''ffffffffffff'') =
     Inl AssertionFailed \<and>
   strcasecmp ''letv-tv-mac'' ''LETV-TV-MAC'' = 0 \<and>
   list_all known_field
     [Call_SetField ''LETV-TV-MAC'' (Some ''0a1b2c3d4e5f''), Call_SetField ''Connection'' (Some ''close''),
      Call_SetField ''host'' (Some ''example.com''), Call_SetField ''LETV-ZIP'' (Some ''1'')] \<and>
   calls PostHeader_init
     [Call_SetField ''LETV-TV-MAC'' (Some ''0a1b2c3d4e5f''), Call_SetField ''Connection'' (Some ''close''),
      Call_SetField ''host'' (Some ''example.com''), Call_SetField ''LETV-ZIP'' (Some ''1'')] \<noteq>
     Inl AssertionFailed"
  using SetField_assertion [of PostHeader_init "''Content-Type''" "Some ''text/plain''"
      "[Call_SetField ''LETV-TV-MAC'' (Some ''0a1b2c3d4e5f''), Call_SetField ''Connection'' (Some ''close''),
        Call_SetField ''host'' (Some ''example.com''), Call_SetField ''LETV-ZIP'' (Some ''1'')]"]
    SetField_assertion [of "PostHeader_init\<lparr>mac := Some ''0a1b2c3d4e5f''\<rparr>" "''letv-tv-mac''"
      "Some ''ffffffffffff''" "[]"]
  by (simp add: evaluate)

section \<open>Generate\<close>

lemma decimal_snoc: "decimal (s @ [c]) = 10 * decimal s + (of_char c - 48)"
  by (simp add: decimal_def)

lemma zu_decimal: "decimal (zu n) = n"
proof (induction n rule: zu.induct)
  case (1 n)
  show ?case
  proof (cases "n < 10")
    case True
    then show ?thesis
      using decimal_snoc [of "[]" "char_of (48 + n)"]
      by (simp add: zu.simps [of n] decimal_def)
  next
    case False
    then show ?thesis
      using "1.IH" decimal_snoc [of "zu (n div 10)" "char_of (48 + n mod 10)"]
      by (simp add: zu.simps [of n])
  qed
qed

lemma prefix_of_request_header:
  "prefix_of h uri m @ zu n @ CRLF @ CRLF =
     request_header uri (host h) m (compressed h) (persistent h) n"
  by (simp add: prefix_of_def pattern_def request_header_def program_def version_def)

lemma Generate_prefix_fresh:
  "content_length_offset h = 0 \<Longrightarrow> path h = Some uri \<Longrightarrow> mac h = Some m \<Longrightarrow>
   Generate_prefix h =
     Inr (h\<lparr>buffer := take 2047 (prefix_of h uri m),
            content_length_offset := length (prefix_of h uri m)\<rparr>)"
  by (simp add: Generate_prefix_def snprintf_def prefix_of_def)

lemma Generate_prefix_memo: "content_length_offset h \<noteq> 0 \<Longrightarrow> Generate_prefix h = Inr h"
  by (simp add: Generate_prefix_def)

lemma Generate_prefix_pos: "Generate_prefix h = Inr hp \<Longrightarrow> 0 < content_length_offset hp"
  by (auto simp: Generate_prefix_def snprintf_def pattern_def split: if_splits option.splits)

lemma write_tail_eq:
  "write_tail buf off s =
     (if off \<le> length buf \<and> off < 2048 then take off buf @ take (2047 - off) s else buf)"
  by (auto simp: write_tail_def snprintf_def)

lemma take_write_tail: "take off (write_tail buf off s) = take off buf"
  by (simp add: write_tail_eq)

lemma write_tail_twice: "write_tail (write_tail buf off s) off t = write_tail buf off t"
  by (auto simp: write_tail_eq)

lemma Generate_memo:
  "content_length_offset h \<noteq> 0 \<Longrightarrow> content_length_offset h \<le> 2048 \<Longrightarrow>
   Generate h n =
     Inr (h\<lparr>buffer := write_tail (buffer h) (content_length_offset h) (zu n @ CRLF @ CRLF)\<rparr>,
          write_tail (buffer h) (content_length_offset h) (zu n @ CRLF @ CRLF),
          content_length_offset h + length (zu n @ CRLF @ CRLF))"
  by (simp add: Generate_def Generate_prefix_memo snprintf_def)

lemma Generate_Inr_after:
  assumes "Generate h n = Inr (h1, b1, s1)"
  shows "content_length_offset h1 \<noteq> 0" and "content_length_offset h1 \<le> 2048"
    and "buffer h1 = b1"
    and "b1 = write_tail b1 (content_length_offset h1) (zu n @ CRLF @ CRLF)"
    and "s1 = content_length_offset h1 + length (zu n @ CRLF @ CRLF)"
proof -
  obtain hp where hp: "Generate_prefix h = Inr hp"
    using assms by (cases "Generate_prefix h") (simp_all add: Generate_def)
  have le: "content_length_offset hp \<le> 2048"
    using assms hp by (simp add: Generate_def split: if_splits)
  have h1: "h1 = hp\<lparr>buffer := b1\<rparr>"
    and b1: "b1 = write_tail (buffer hp) (content_length_offset hp) (zu n @ CRLF @ CRLF)"
    and s1: "s1 = content_length_offset hp + length (zu n @ CRLF @ CRLF)"
    using assms hp le by (auto simp: Generate_def snprintf_def)
  show "content_length_offset h1 \<noteq> 0" using Generate_prefix_pos [OF hp] h1 by simp
  show "content_length_offset h1 \<le> 2048" using le h1 by simp
  show "buffer h1 = b1" using h1 by simp
  show "b1 = write_tail b1 (content_length_offset h1) (zu n @ CRLF @ CRLF)"
    using h1 b1 by (simp add: write_tail_twice)
  show "s1 = content_length_offset h1 + length (zu n @ CRLF @ CRLF)" using s1 h1 by simp
qed

lemma Generate_fresh:
  assumes "content_length_offset h = 0" "path h = Some uri" "mac h = Some m"
    and "length (prefix_of h uri m) \<le> 2048"
  shows "Generate h n =
     Inr (h\<lparr>buffer := take 2047 (prefix_of h uri m @ zu n @ CRLF @ CRLF),
            content_length_offset := length (prefix_of h uri m)\<rparr>,
          take 2047 (prefix_of h uri m @ zu n @ CRLF @ CRLF),
          length (prefix_of h uri m @ zu n @ CRLF @ CRLF))"
  using assms
  by (auto simp: Generate_def Generate_prefix_fresh write_tail_eq snprintf_def)

lemma Generate_returns:
  assumes "path h = Some uri" "mac h = Some m"
    and "content_length_offset h \<le> 2048" "length (prefix_of h uri m) \<le> 2048"
  shows "\<exists>r. Generate h n = Inr r"
proof (cases "content_length_offset h = 0")
  case True
  then show ?thesis using Generate_fresh [OF True assms(1,2,4)] by simp
next
  case False
  then show ?thesis using Generate_memo [OF False assms(3)] by simp
qed

text \<open>
  C3. Once \<open>Generate\<close> has returned, calling it again with the same body size returns
  the same bytes and the same \<open>head_size\<close> and leaves the object as it is; calling it
  with another body size keeps \<open>content_length_offset\<close> and the bytes before that offset,
  and rewrites only what follows. With the request line and the MAC set and a prefix
  that fits the buffer, \<open>Generate\<close> does return.
\<close>

theorem Generate_repeat:
  "(path h = Some uri \<and> mac h = Some m \<and> content_length_offset h \<le> 2048 \<and>
    length (prefix_of h uri m) \<le> 2048 \<longrightarrow> (\<exists>r. Generate h n = Inr r)) \<and>
   (Generate h n = Inr (h1, b1, s1) \<longrightarrow>
      Generate h1 n = Inr (h1, b1, s1) \<and>
      Generate h1 k =
        Inr (h1\<lparr>buffer := write_tail b1 (content_length_offset h1) (zu k @ CRLF @ CRLF)\<rparr>,
             write_tail b1 (content_length_offset h1) (zu k @ CRLF @ CRLF),
             content_length_offset h1 + length (zu k @ CRLF @ CRLF)) \<and>
      take (content_length_offset h1)
          (write_tail b1 (content_length_offset h1) (zu k @ CRLF @ CRLF)) =
        take (content_length_offset h1) b1 \<and>
      write_tail b1 (content_length_offset h1) (zu k @ CRLF @ CRLF) =
        (if content_length_offset h1 \<le> length b1 \<and> content_length_offset h1 < 2048
         then take (content_length_offset h1) b1 @
              take (2047 - content_length_offset h1) (zu k @ CRLF @ CRLF)
         else b1))"
proof -
  have second: "Generate h1 n = Inr (h1, b1, s1) \<and>
      Generate h1 k =
        Inr (h1\<lparr>buffer := write_tail b1 (content_length_offset h1) (zu k @ CRLF @ CRLF)\<rparr>,
             write_tail b1 (content_length_offset h1) (zu k @ CRLF @ CRLF),
             content_length_offset h1 + length (zu k @ CRLF @ CRLF))"
    if first: "Generate h n = Inr (h1, b1, s1)"
  proof -
    note a = Generate_Inr_after [OF first]
    have g: "Generate h1 j =
        Inr (h1\<lparr>buffer := write_tail b1 (content_length_offset h1) (zu j @ CRLF @ CRLF)\<rparr>,
             write_tail b1 (content_length_offset h1) (zu j @ CRLF @ CRLF),
             content_length_offset h1 + length (zu j @ CRLF @ CRLF))" for j
      using Generate_memo [OF a(1) a(2)] a(3) by simp
    have "h1\<lparr>buffer := b1\<rparr> = h1" using a(3) by simp
    then have "Generate h1 n = Inr (h1, b1, s1)"
      using g [of n] a(4) a(5) by simp
    then show ?thesis using g [of k] by simp
  qed
  show ?thesis
    using second Generate_returns [of h uri m n] take_write_tail write_tail_eq
    by blast
qed

theorem Generate_repeat_witness:
  "Generate (PostHeader_init\<lparr>path := Some ''/p'', mac := Some ''m''\<rparr>) 10 =
     Inr (PostHeader_init\<lparr>path := Some ''/p'', mac := Some ''m'',
            buffer := request_header ''/p'' [] ''m'' False True 10,
            content_length_offset := 95\<rparr>,
          request_header ''/p'' [] ''m'' False True 10, 101) \<and>
   Generate (PostHeader_init\<lparr>path := Some ''/p'', mac := Some ''m'',
               buffer := request_header ''/p'' [] ''m'' False True 10,
               content_length_offset := 95\<rparr>) 10 =
     Inr (PostHeader_init\<lparr>path := Some ''/p'', mac := Some ''m'',
            buffer := request_header ''/p'' [] ''m'' False True 10,
            content_length_offset := 95\<rparr>,
          request_header ''/p'' [] ''m'' False True 10, 101) \<and>
   Generate (PostHeader_init\<lparr>path := Some ''/p'', mac := Some ''m'',
               buffer := request_header ''/p'' [] ''m'' False True 10,
               content_length_offset := 95\<rparr>) 1234 =
     Inr (PostHeader_init\<lparr>path := Some ''/p'', mac := Some ''m'',
            buffer := request_header ''/p'' [] ''m'' False True 1234,
            content_length_offset := 95\<rparr>,
          request_header ''/p'' [] ''m'' False True 1234, 103) \<and>
   take 95 (request_header ''/p'' [] ''m'' False True 1234) =
     take 95 (request_header ''/p'' [] ''m'' False True 10)"
proof -
  have first: "Generate (PostHeader_init\<lparr>path := Some ''/p'', mac := Some ''m''\<rparr>) 10 =
     Inr (PostHeader_init\<lparr>path := Some ''/p'', mac := Some ''m'',
            buffer := request_header ''/p'' [] ''m'' False True 10,
            content_length_offset := 95\<rparr>,
          request_header ''/p'' [] ''m'' False True 10, 101)"
    by (simp add: evaluate)
  have tail: "write_tail (request_header ''/p'' [] ''m'' False True 10) 95 (zu 1234 @ CRLF @ CRLF) =
      request_header ''/p'' [] ''m'' False True 1234"
    by (simp add: evaluate)
  show ?thesis
    using first tail
      Generate_repeat [of "PostHeader_init\<lparr>path := Some ''/p'', mac := Some ''m''\<rparr>"
        "''/p''" "''m''" 10
        "PostHeader_init\<lparr>path := Some ''/p'', mac := Some ''m'',
            buffer := request_header ''/p'' [] ''m'' False True 10,
            content_length_offset := 95\<rparr>"
        "request_header ''/p'' [] ''m'' False True 10" 101 1234]
    by (simp add: zu.simps CRLF_def)
qed

section \<open>The memoized prefix\<close>

lemma calls_memo:
  assumes "content_length_offset h \<noteq> 0" "content_length_offset h \<le> 2048"
    and "list_all host_or_generate cs"
  shows "\<exists>h2 outs. calls h cs = Inr (h2, outs) \<and>
           content_length_offset h2 = content_length_offset h \<and>
           length outs = length (filter is_Generate cs) \<and>
           list_all (\<lambda>out. take (content_length_offset h) (fst out) =
                            take (content_length_offset h) (buffer h)) outs"
  using assms
proof (induction cs arbitrary: h)
  case Nil
  then show ?case by simp
next
  case (Cons c cs)
  have rest: "list_all host_or_generate cs"
    using Cons.prems(3) by simp
  show ?case
  proof (cases c)
    case (Call_SetRequest m u v)
    then show ?thesis using Cons.prems(3) by simp
  next
    case (Call_SetField f v)
    then obtain x where f: "strcasecmp f ''Host'' = 0" and v: "v = Some x"
      using Cons.prems(3) by auto
    let ?h = "h\<lparr>host := take 63 x\<rparr>"
    have "content_length_offset ?h \<noteq> 0" "content_length_offset ?h \<le> 2048"
      using Cons.prems(1,2) by simp_all
    from Cons.IH [OF this rest] show ?thesis
      using Call_SetField v SetField_Host [OF f, of h x] by auto
  next
    case (Call_Generate n)
    let ?b = "write_tail (buffer h) (content_length_offset h) (zu n @ CRLF @ CRLF)"
    let ?h = "h\<lparr>buffer := ?b\<rparr>"
    have g: "Generate h n = Inr (?h, ?b, content_length_offset h + length (zu n @ CRLF @ CRLF))"
      using Generate_memo [OF Cons.prems(1,2)] .
    have "content_length_offset ?h \<noteq> 0" "content_length_offset ?h \<le> 2048"
      using Cons.prems(1,2) by simp_all
    from Cons.IH [OF this rest] obtain h2 outs where
      r: "calls ?h cs = Inr (h2, outs)"
      and o: "content_length_offset h2 = content_length_offset h"
      and l: "length outs = length (filter is_Generate cs)"
      and a: "list_all (\<lambda>out. take (content_length_offset h) (fst out) =
                            take (content_length_offset h) ?b) outs"
      by auto
    have t: "take (content_length_offset h) ?b = take (content_length_offset h) (buffer h)"
      by (rule take_write_tail)
    show ?thesis
      using Call_Generate g r o l a t by simp
  qed
qed

text \<open>
  C10. After a \<open>Generate\<close> call has returned, \<open>SetField\<close> for Host stores the new value
  (its first 63 bytes) and changes nothing else, so \<open>content_length_offset\<close> and the
  buffer stay; and in any later sequence of Host updates and \<open>Generate\<close> calls every
  \<open>Generate\<close> returns a string whose bytes before \<open>content_length_offset\<close> are those of
  the first call: the Host line memoized then. A change of the compression or keep-alive
  flag is not part of such a sequence; it resets the offset.
\<close>

theorem SetField_Host_keeps_prefix:
  "Generate h n = Inr (h1, b1, s1) \<and> list_all host_or_generate cs \<longrightarrow>
     SetField h1 ''Host'' (Some v) = Inr (h1\<lparr>host := take 63 v\<rparr>) \<and>
     content_length_offset h1 \<noteq> 0 \<and>
     (\<exists>h2 outs. calls h1 cs = Inr (h2, outs) \<and>
        content_length_offset h2 = content_length_offset h1 \<and>
        length outs = length (filter is_Generate cs) \<and>
        list_all (\<lambda>out. take (content_length_offset h1) (fst out) =
                         take (content_length_offset h1) b1) outs)"
proof
  assume a: "Generate h n = Inr (h1, b1, s1) \<and> list_all host_or_generate cs"
  note g = Generate_Inr_after [OF conjunct1 [OF a]]
  have "SetField h1 ''Host'' (Some v) = Inr (h1\<lparr>host := take 63 v\<rparr>)"
    by (rule SetField_Host) simp
  then show "SetField h1 ''Host'' (Some v) = Inr (h1\<lparr>host := take 63 v\<rparr>) \<and>
     content_length_offset h1 \<noteq> 0 \<and>
     (\<exists>h2 outs. calls h1 cs = Inr (h2, outs) \<and>
        content_length_offset h2 = content_length_offset h1 \<and>
        length outs = length (filter is_Generate cs) \<and>
        list_all (\<lambda>out. take (content_length_offset h1) (fst out) =
                         take (content_length_offset h1) b1) outs)"
    using calls_memo [OF g(1) g(2) conjunct2 [OF a]] g(1) g(3) by simp
qed

theorem SetField_Host_keeps_prefix_witness:
  "Generate (PostHeader_init\<lparr>path := Some ''/p'', mac := Some ''m'', host := ''a''\<rparr>) 5 =
     Inr (PostHeader_init\<lparr>path := Some ''/p'', mac := Some ''m'', host := ''a'',
            buffer := request_header ''/p'' ''a'' ''m'' False True 5,
            content_length_offset := 96\<rparr>,
          request_header ''/p'' ''a'' ''m'' False True 5, 101) \<and>
   list_all host_or_generate [Call_SetField ''Host'' (Some ''b''), Call_Generate 5, Call_Generate 77] \<and>
   calls (PostHeader_init\<lparr>path := Some ''/p'', mac := Some ''m'', host := ''a'',
            buffer := request_header ''/p'' ''a'' ''m'' False True 5,
            content_length_offset := 96\<rparr>)
       [Call_SetField ''Host'' (Some ''b''), Call_Generate 5, Call_Generate 77] =
     Inr (PostHeader_init\<lparr>path := Some ''/p'', mac := Some ''m'', host := ''b'',
            buffer := request_header ''/p'' ''a'' ''m'' False True 77,
            content_length_offset := 96\<rparr>,
          [(request_header ''/p'' ''a'' ''m'' False True 5, 101),
           (request_header ''/p'' ''a'' ''m'' False True 77, 102)]) \<and>
   take 96 (request_header ''/p'' ''a'' ''m'' False True 77) =
     take 96 (request_header ''/p'' ''a'' ''m'' False True 5)"
proof -
  have first: "Generate (PostHeader_init\<lparr>path := Some ''/p'', mac := Some ''m'', host := ''a''\<rparr>) 5 =
     Inr (PostHeader_init\<lparr>path := Some ''/p'', mac := Some ''m'', host := ''a'',
            buffer := request_header ''/p'' ''a'' ''m'' False True 5,
            content_length_offset := 96\<rparr>,
          request_header ''/p'' ''a'' ''m'' False True 5, 101)"
    by (simp add: evaluate)
  have cs: "list_all host_or_generate
      [Call_SetField ''Host'' (Some ''b''), Call_Generate 5, Call_Generate 77]"
    by (simp add: tolower_def)
  have run: "calls (PostHeader_init\<lparr>path := Some ''/p'', mac := Some ''m'', host := ''a'',
            buffer := request_header ''/p'' ''a'' ''m'' False True 5,
            content_length_offset := 96\<rparr>)
       [Call_SetField ''Host'' (Some ''b''), Call_Generate 5, Call_Generate 77] =
     Inr (PostHeader_init\<lparr>path := Some ''/p'', mac := Some ''m'', host := ''b'',
            buffer := request_header ''/p'' ''a'' ''m'' False True 77,
            content_length_offset := 96\<rparr>,
          [(request_header ''/p'' ''a'' ''m'' False True 5, 101),
           (request_header ''/p'' ''a'' ''m'' False True 77, 102)])"
    by (simp add: evaluate)
  have pre: "take 96 (request_header ''/p'' ''a'' ''m'' False True 77) =
      take 96 (request_header ''/p'' ''a'' ''m'' False True 5)"
    by (simp add: evaluate)
  show ?thesis
    using first cs run pre
      SetField_Host_keeps_prefix [of
        "PostHeader_init\<lparr>path := Some ''/p'', mac := Some ''m'', host := ''a''\<rparr>" 5
        "PostHeader_init\<lparr>path := Some ''/p'', mac := Some ''m'', host := ''a'',
            buffer := request_header ''/p'' ''a'' ''m'' False True 5,
            content_length_offset := 96\<rparr>"
        "request_header ''/p'' ''a'' ''m'' False True 5" 101
        "[Call_SetField ''Host'' (Some ''b''), Call_Generate 5, Call_Generate 77]" "''b''"]
    by simp
qed

section \<open>Flags that change the prefix\<close>

text \<open>
  C6. \<open>SetField\<close> for LETV-ZIP or Connection (in any letter case) that changes the
  compressed or persistent flag stores the new flag and sets \<open>content_length_offset\<close>
  to 0; one that leaves the flag as it was returns the object unchanged, memoized prefix
  included. With the offset 0, the next \<open>Generate\<close> formats the whole prefix again from
  the fields as they are now, whatever the buffer held.
\<close>

theorem SetField_flag_invalidates:
  "(strcasecmp f ''LETV-ZIP'' = 0 \<longrightarrow>
      SetField h f v =
        Inr (if compressed h = (v \<noteq> None) then h
             else h\<lparr>content_length_offset := 0, compressed := (v \<noteq> None)\<rparr>)) \<and>
   (strcasecmp f ''Connection'' = 0 \<longrightarrow>
      SetField h f (Some x) =
        Inr (if persistent h = (strcasecmp x ''close'' \<noteq> 0) then h
             else h\<lparr>content_length_offset := 0,
                    persistent := (strcasecmp x ''close'' \<noteq> 0)\<rparr>)) \<and>
   (content_length_offset h1 = 0 \<and> path h1 = Some uri \<and> mac h1 = Some m \<and>
    length (prefix_of h1 uri m) \<le> 2048 \<longrightarrow>
      Generate h1 n =
        Inr (h1\<lparr>buffer :=
                  take 2047 (request_header uri (host h1) m (compressed h1) (persistent h1) n),
                content_length_offset := length (prefix_of h1 uri m)\<rparr>,
             take 2047 (request_header uri (host h1) m (compressed h1) (persistent h1) n),
             length (request_header uri (host h1) m (compressed h1) (persistent h1) n)))"
proof -
  have zip: "SetField h f v =
        Inr (if compressed h = (v \<noteq> None) then h
             else h\<lparr>content_length_offset := 0, compressed := (v \<noteq> None)\<rparr>)"
    if "strcasecmp f ''LETV-ZIP'' = 0"
    using that ZIP_not_Host [OF that] ZIP_not_MAC [OF that]
    by (cases v) (simp_all add: SetField_def)
  have con: "SetField h f (Some x) =
        Inr (if persistent h = (strcasecmp x ''close'' \<noteq> 0) then h
             else h\<lparr>content_length_offset := 0,
                    persistent := (strcasecmp x ''close'' \<noteq> 0)\<rparr>)"
    if "strcasecmp f ''Connection'' = 0"
    using that Connection_not_Host [OF that] Connection_not_MAC [OF that]
      Connection_not_ZIP [OF that]
    by (simp add: SetField_def)
  have gen: "Generate h1 n =
        Inr (h1\<lparr>buffer :=
                  take 2047 (request_header uri (host h1) m (compressed h1) (persistent h1) n),
                content_length_offset := length (prefix_of h1 uri m)\<rparr>,
             take 2047 (request_header uri (host h1) m (compressed h1) (persistent h1) n),
             length (request_header uri (host h1) m (compressed h1) (persistent h1) n))"
    if "content_length_offset h1 = 0" "path h1 = Some uri" "mac h1 = Some m"
      "length (prefix_of h1 uri m) \<le> 2048"
    using Generate_fresh [OF that, of n] prefix_of_request_header [of h1 uri m n]
    by simp
  show ?thesis using zip con gen by blast
qed

theorem SetField_flag_invalidates_witness:
  "strcasecmp ''letv-zip'' ''LETV-ZIP'' = 0 \<and>
   SetField (PostHeader_init\<lparr>path := Some ''/p'', mac := Some ''m'', host := ''a'',
               buffer := request_header ''/p'' ''a'' ''m'' False True 5,
               content_length_offset := 96\<rparr>) ''letv-zip'' (Some ''1'') =
     Inr (PostHeader_init\<lparr>path := Some ''/p'', mac := Some ''m'', host := ''a'',
            buffer := request_header ''/p'' ''a'' ''m'' False True 5,
            content_length_offset := 0, compressed := True\<rparr>) \<and>
   strcasecmp ''Connection'' ''Connection'' = 0 \<and>
   SetField (PostHeader_init\<lparr>path := Some ''/p'', mac := Some ''m'', host := ''a'',
               buffer := request_header ''/p'' ''a'' ''m'' False True 5,
               content_length_offset := 96\<rparr>) ''Connection'' (Some ''Keep-Alive'') =
     Inr (PostHeader_init\<lparr>path := Some ''/p'', mac := Some ''m'', host := ''a'',
            buffer := request_header ''/p'' ''a'' ''m'' False True 5,
            content_length_offset := 96\<rparr>) \<and>
   Generate (PostHeader_init\<lparr>path := Some ''/p'', mac := Some ''m'', host := ''a'',
               buffer := request_header ''/p'' ''a'' ''m'' False True 5,
               content_length_offset := 0, compressed := True\<rparr>) 5 =
     Inr (PostHeader_init\<lparr>path := Some ''/p'', mac := Some ''m'', host := ''a'',
            buffer := request_header ''/p'' ''a'' ''m'' True True 5,
            content_length_offset := 109, compressed := True\<rparr>,
          request_header ''/p'' ''a'' ''m'' True True 5, 114)"
  using
    SetField_flag_invalidates [of "''letv-zip''"
      "PostHeader_init\<lparr>path := Some ''/p'', mac := Some ''m'', host := ''a'',
         buffer := request_header ''/p'' ''a'' ''m'' False True 5,
         content_length_offset := 96\<rparr>" "Some ''1''" "''close''"
      "PostHeader_init\<lparr>path := Some ''/p'', mac := Some ''m'', host := ''a'',
         buffer := request_header ''/p'' ''a'' ''m'' False True 5,
         content_length_offset := 0, compressed := True\<rparr>" "''/p''" "''m''" 5]
    SetField_flag_invalidates [of "''Connection''"
      "PostHeader_init\<lparr>path := Some ''/p'', mac := Some ''m'', host := ''a'',
         buffer := request_header ''/p'' ''a'' ''m'' False True 5,
         content_length_offset := 96\<rparr>" "None" "''Keep-Alive''"
      "PostHeader_init\<lparr>path := Some ''/p'', mac := Some ''m'', host := ''a'',
         buffer := request_header ''/p'' ''a'' ''m'' False True 5,
         content_length_offset := 0, compressed := True\<rparr>" "''/p''" "''m''" 5]
  by (simp add: evaluate)

section \<open>The header Generate returns\<close>

text \<open>
  C2, as stated, fails, in two ways. First: the fields of the object of the first run
  have all been set, the Host last to \<open>b\<close>, and the second \<open>Generate\<close> still returns the
  header with \<open>Host: a\<close> that the first one memoized. Second: with a request URI of
  1950 bytes the header for body size 10 has 2049 bytes; \<open>Generate\<close> returns its first
  2047 bytes, without the end of the blank line, and \<open>head_size\<close> is 2049.
\<close>

theorem Generate_not_exact_counterexample:
  "calls PostHeader_init
     [Call_SetRequest (Some ''POST'') (Some ''/p'') (Some ''HTTP/1.1''),
      Call_SetField ''LETV-TV-MAC'' (Some ''m''),
      Call_SetField ''Host'' (Some ''a''),
      Call_Generate 5,
      Call_SetField ''Host'' (Some ''b''),
      Call_Generate 5] =
   Inr (\<lparr>mac = Some ''m'', path = Some ''/p'', compressed = False, persistent = True,
         host = ''b'',
         buffer = ''POST /p HTTP/1.1'' @ CRLF @ ''Host: a'' @ CRLF @
                  ''User-Agent: pipe/0.0.1'' @ CRLF @ ''Accept: */*'' @ CRLF @
                  ''LETV-TV-MAC: m'' @ CRLF @ ''Content-Length: 5'' @ CRLF @ CRLF,
         content_length_offset = 96\<rparr>,
        [(''POST /p HTTP/1.1'' @ CRLF @ ''Host: a'' @ CRLF @
          ''User-Agent: pipe/0.0.1'' @ CRLF @ ''Accept: */*'' @ CRLF @
          ''LETV-TV-MAC: m'' @ CRLF @ ''Content-Length: 5'' @ CRLF @ CRLF, 101),
         (''POST /p HTTP/1.1'' @ CRLF @ ''Host: a'' @ CRLF @
          ''User-Agent: pipe/0.0.1'' @ CRLF @ ''Accept: */*'' @ CRLF @
          ''LETV-TV-MAC: m'' @ CRLF @ ''Content-Length: 5'' @ CRLF @ CRLF, 101)]) \<and>
   ''POST /p HTTP/1.1'' @ CRLF @ ''Host: a'' @ CRLF @
     ''User-Agent: pipe/0.0.1'' @ CRLF @ ''Accept: */*'' @ CRLF @
     ''LETV-TV-MAC: m'' @ CRLF @ ''Content-Length: 5'' @ CRLF @ CRLF \<noteq>
   request_header ''/p'' ''b'' ''m'' False True 5 \<and>
   calls PostHeader_init
     [Call_SetRequest (Some ''POST'') (Some (replicate 1950 (CHR ''x''))) (Some ''HTTP/1.1''),
      Call_SetField ''LETV-TV-MAC'' (Some ''m''),
      Call_Generate 10] =
   Inr (\<lparr>mac = Some ''m'', path = Some (replicate 1950 (CHR ''x'')), compressed = False,
         persistent = True, host = [],
         buffer = take 2047 (request_header (replicate 1950 (CHR ''x'')) [] ''m'' False True 10),
         content_length_offset = 2043\<rparr>,
        [(take 2047 (request_header (replicate 1950 (CHR ''x'')) [] ''m'' False True 10), 2049)]) \<and>
   length (take 2047 (request_header (replicate 1950 (CHR ''x'')) [] ''m'' False True 10)) = 2047 \<and>
   length (request_header (replicate 1950 (CHR ''x'')) [] ''m'' False True 10) = 2049"
proof -
  let ?h = "\<lparr>mac = Some ''m'', path = Some (replicate 1950 (CHR ''x'')), compressed = False,
         persistent = True, host = [], buffer = [], content_length_offset = 0\<rparr>"
  have len: "length (prefix_of ?h (replicate 1950 (CHR ''x'')) ''m'') = 2043"
    by (simp add: prefix_of_def pattern_def program_def version_def CRLF_def)
  have total: "length (request_header (replicate 1950 (CHR ''x'')) [] ''m'' False True 10) = 2049"
    by (simp add: request_header_def CRLF_def zu.simps)
  have "Generate ?h 10 =
      Inr (?h\<lparr>buffer := take 2047 (prefix_of ?h (replicate 1950 (CHR ''x'')) ''m'' @ zu 10 @ CRLF @ CRLF),
             content_length_offset := length (prefix_of ?h (replicate 1950 (CHR ''x'')) ''m'')\<rparr>,
           take 2047 (prefix_of ?h (replicate 1950 (CHR ''x'')) ''m'' @ zu 10 @ CRLF @ CRLF),
           length (prefix_of ?h (replicate 1950 (CHR ''x'')) ''m'' @ zu 10 @ CRLF @ CRLF))"
    by (rule Generate_fresh) (simp_all add: len)
  then have gen: "Generate ?h 10 =
      Inr (?h\<lparr>buffer := take 2047 (request_header (replicate 1950 (CHR ''x'')) [] ''m'' False True 10),
             content_length_offset := 2043\<rparr>,
           take 2047 (request_header (replicate 1950 (CHR ''x'')) [] ''m'' False True 10),
           2049)"
    using prefix_of_request_header [of ?h "replicate 1950 (CHR ''x'')" "''m''" 10] len total
    by simp
  have long: "calls PostHeader_init
     [Call_SetRequest (Some ''POST'') (Some (replicate 1950 (CHR ''x''))) (Some ''HTTP/1.1''),
      Call_SetField ''LETV-TV-MAC'' (Some ''m''),
      Call_Generate 10] =
   Inr (\<lparr>mac = Some ''m'', path = Some (replicate 1950 (CHR ''x'')), compressed = False,
         persistent = True, host = [],
         buffer = take 2047 (request_header (replicate 1950 (CHR ''x'')) [] ''m'' False True 10),
         content_length_offset = 2043\<rparr>,
        [(take 2047 (request_header (replicate 1950 (CHR ''x'')) [] ''m'' False True 10), 2049)])"
    using gen by (simp add: SetRequest_def SetField_def PostHeader_init_def tolower_def)
  have stale: "calls PostHeader_init
     [Call_SetRequest (Some ''POST'') (Some ''/p'') (Some ''HTTP/1.1''),
      Call_SetField ''LETV-TV-MAC'' (Some ''m''),
      Call_SetField ''Host'' (Some ''a''),
      Call_Generate 5,
      Call_SetField ''Host'' (Some ''b''),
      Call_Generate 5] =
   Inr (\<lparr>mac = Some ''m'', path = Some ''/p'', compressed = False, persistent = True,
         host = ''b'',
         buffer = ''POST /p HTTP/1.1'' @ CRLF @ ''Host: a'' @ CRLF @
                  ''User-Agent: pipe/0.0.1'' @ CRLF @ ''Accept: */*'' @ CRLF @
                  ''LETV-TV-MAC: m'' @ CRLF @ ''Content-Length: 5'' @ CRLF @ CRLF,
         content_length_offset = 96\<rparr>,
        [(''POST /p HTTP/1.1'' @ CRLF @ ''Host: a'' @ CRLF @
          ''User-Agent: pipe/0.0.1'' @ CRLF @ ''Accept: */*'' @ CRLF @
          ''LETV-TV-MAC: m'' @ CRLF @ ''Content-Length: 5'' @ CRLF @ CRLF, 101),
         (''POST /p HTTP/1.1'' @ CRLF @ ''Host: a'' @ CRLF @
          ''User-Agent: pipe/0.0.1'' @ CRLF @ ''Accept: */*'' @ CRLF @
          ''LETV-TV-MAC: m'' @ CRLF @ ''Content-Length: 5'' @ CRLF @ CRLF, 101)])"
    by (simp add: evaluate)
  have differ: "''POST /p HTTP/1.1'' @ CRLF @ ''Host: a'' @ CRLF @
     ''User-Agent: pipe/0.0.1'' @ CRLF @ ''Accept: */*'' @ CRLF @
     ''LETV-TV-MAC: m'' @ CRLF @ ''Content-Length: 5'' @ CRLF @ CRLF \<noteq>
   request_header ''/p'' ''b'' ''m'' False True 5"
    by (simp add: evaluate)
  have cut: "length (take 2047 (request_header (replicate 1950 (CHR ''x'')) [] ''m'' False True 10)) = 2047"
    using total by simp
  show ?thesis
    using stale differ long cut total by blast
qed

text \<open>
  C2, amended. For an object with the request URI and the MAC set, whose memoized
  prefix is current (none is memoized, or the one memoized was formatted from the fields
  as they are now), and whose header for this body size is shorter than 2048 bytes,
  \<open>Generate\<close> returns exactly the request line, the Host line with the host the object
  stores, User-Agent, Accept, the MAC line, the LETV-ZIP line if and only if the
  compression flag is set, the Connection line if and only if the object is not
  persistent, and Content-Length with the body size in decimal and the blank line;
  \<open>head_size\<close> is the number of bytes of that header; and the prefix is current again
  afterwards.
\<close>

theorem Generate_exact_header:
  "path h = Some uri \<and> mac h = Some m \<and> prefix_current h uri m \<and>
   length (request_header uri (host h) m (compressed h) (persistent h) n) < 2048 \<longrightarrow>
     Generate h n =
       Inr (h\<lparr>buffer := request_header uri (host h) m (compressed h) (persistent h) n,
              content_length_offset := length (prefix_of h uri m)\<rparr>,
            request_header uri (host h) m (compressed h) (persistent h) n,
            length (request_header uri (host h) m (compressed h) (persistent h) n)) \<and>
     prefix_current
       (h\<lparr>buffer := request_header uri (host h) m (compressed h) (persistent h) n,
          content_length_offset := length (prefix_of h uri m)\<rparr>) uri m \<and>
     request_header uri (host h) m (compressed h) (persistent h) n =
       ''POST '' @ uri @ '' HTTP/1.1'' @ [CHR 0x0D, CHR 0x0A] @
       ''Host: '' @ host h @ [CHR 0x0D, CHR 0x0A] @
       ''User-Agent: pipe/0.0.1'' @ [CHR 0x0D, CHR 0x0A] @
       ''Accept: */*'' @ [CHR 0x0D, CHR 0x0A] @
       ''LETV-TV-MAC: '' @ m @ [CHR 0x0D, CHR 0x0A] @
       (if compressed h then ''LETV-ZIP: 1'' @ [CHR 0x0D, CHR 0x0A] else []) @
       (if persistent h then [] else ''Connection: close'' @ [CHR 0x0D, CHR 0x0A]) @
       ''Content-Length: '' @ zu n @ [CHR 0x0D, CHR 0x0A] @ [CHR 0x0D, CHR 0x0A] \<and>
     decimal (zu n) = n"
proof
  let ?R = "request_header uri (host h) m (compressed h) (persistent h) n"
  let ?P = "prefix_of h uri m"
  let ?t = "zu n @ CRLF @ CRLF"
  assume a: "path h = Some uri \<and> mac h = Some m \<and> prefix_current h uri m \<and>
    length ?R < 2048"
  have R: "?P @ ?t = ?R"
    by (rule prefix_of_request_header)
  have len: "length ?R = length ?P + length ?t"
    using R [symmetric] by (simp only: length_append)
  have fits: "length ?P + length ?t < 2048"
    using a len by simp
  have gen: "Generate h n = Inr (h\<lparr>buffer := ?R, content_length_offset := length ?P\<rparr>, ?R, length ?R)"
  proof (cases "content_length_offset h = 0")
    case True
    have "Generate h n =
        Inr (h\<lparr>buffer := take 2047 ?R, content_length_offset := length ?P\<rparr>,
             take 2047 ?R, length ?R)"
      using Generate_fresh [of h uri m n] True a fits R by simp
    moreover have "take 2047 ?R = ?R"
      using a by simp
    ultimately show ?thesis by simp
  next
    case False
    have "prefix_current h uri m"
      using a by simp
    then have both: "content_length_offset h = length ?P \<and>
        take (content_length_offset h) (buffer h) = ?P"
      using False by (auto simp: prefix_current_def)
    have off: "content_length_offset h = length ?P"
      using both by (rule conjunct1)
    have "take (content_length_offset h) (buffer h) = ?P"
      using both by (rule conjunct2)
    then have pre: "take (length ?P) (buffer h) = ?P"
      by (simp only: off)
    have "length (take (length ?P) (buffer h)) = length ?P"
      using pre by simp
    then have le: "length ?P \<le> length (buffer h)"
      by simp
    have "write_tail (buffer h) (length ?P) ?t = ?P @ ?t"
      using le fits pre by (simp add: write_tail_eq)
    then have w: "write_tail (buffer h) (content_length_offset h) ?t = ?R"
      using off R by simp
    have "content_length_offset h \<le> 2048"
      using off fits by simp
    from Generate_memo [OF False this, of n]
    have "Generate h n = Inr (h\<lparr>buffer := ?R\<rparr>, ?R, content_length_offset h + length ?t)"
      using w by simp
    moreover have "h\<lparr>buffer := ?R\<rparr> = h\<lparr>buffer := ?R, content_length_offset := length ?P\<rparr>"
      using off by simp
    ultimately show ?thesis
      using off len by simp
  qed
  have "take (length ?P) ?R = ?P"
    using R [symmetric] by simp
  moreover have "prefix_of (h\<lparr>buffer := ?R, content_length_offset := length ?P\<rparr>) uri m = ?P"
    by (simp add: prefix_of_def)
  ultimately have cur: "prefix_current (h\<lparr>buffer := ?R, content_length_offset := length ?P\<rparr>) uri m"
    by (simp add: prefix_current_def)
  show "Generate h n = Inr (h\<lparr>buffer := ?R, content_length_offset := length ?P\<rparr>, ?R, length ?R) \<and>
     prefix_current (h\<lparr>buffer := ?R, content_length_offset := length ?P\<rparr>) uri m \<and>
     ?R =
       ''POST '' @ uri @ '' HTTP/1.1'' @ [CHR 0x0D, CHR 0x0A] @
       ''Host: '' @ host h @ [CHR 0x0D, CHR 0x0A] @
       ''User-Agent: pipe/0.0.1'' @ [CHR 0x0D, CHR 0x0A] @
       ''Accept: */*'' @ [CHR 0x0D, CHR 0x0A] @
       ''LETV-TV-MAC: '' @ m @ [CHR 0x0D, CHR 0x0A] @
       (if compressed h then ''LETV-ZIP: 1'' @ [CHR 0x0D, CHR 0x0A] else []) @
       (if persistent h then [] else ''Connection: close'' @ [CHR 0x0D, CHR 0x0A]) @
       ''Content-Length: '' @ zu n @ [CHR 0x0D, CHR 0x0A] @ [CHR 0x0D, CHR 0x0A] \<and>
     decimal (zu n) = n"
    using gen cur by (simp add: request_header_def CRLF_def zu_decimal)
qed

theorem Generate_exact_header_witness:
  "prefix_current
     (PostHeader_init\<lparr>path := Some ''/upload'', mac := Some ''0a1b2c3d4e5f'',
        host := ''example.com'', compressed := True, persistent := False\<rparr>)
     ''/upload'' ''0a1b2c3d4e5f'' \<and>
   length (request_header ''/upload'' ''example.com'' ''0a1b2c3d4e5f'' True False 1234) = 162 \<and>
   Generate
     (PostHeader_init\<lparr>path := Some ''/upload'', mac := Some ''0a1b2c3d4e5f'',
        host := ''example.com'', compressed := True, persistent := False\<rparr>) 1234 =
     Inr (PostHeader_init\<lparr>path := Some ''/upload'', mac := Some ''0a1b2c3d4e5f'',
            host := ''example.com'', compressed := True, persistent := False,
            buffer := request_header ''/upload'' ''example.com'' ''0a1b2c3d4e5f'' True False 1234,
            content_length_offset := 154\<rparr>,
          ''POST /upload HTTP/1.1'' @ CRLF @ ''Host: example.com'' @ CRLF @
          ''User-Agent: pipe/0.0.1'' @ CRLF @ ''Accept: */*'' @ CRLF @
          ''LETV-TV-MAC: 0a1b2c3d4e5f'' @ CRLF @ ''LETV-ZIP: 1'' @ CRLF @
          ''Connection: close'' @ CRLF @ ''Content-Length: 1234'' @ CRLF @ CRLF,
          162) \<and>
   Generate
     (PostHeader_init\<lparr>path := Some ''/upload'', mac := Some ''0a1b2c3d4e5f'',
        host := ''example.com'', compressed := True, persistent := False,
        buffer := request_header ''/upload'' ''example.com'' ''0a1b2c3d4e5f'' True False 1234,
        content_length_offset := 154\<rparr>) 7 =
     Inr (PostHeader_init\<lparr>path := Some ''/upload'', mac := Some ''0a1b2c3d4e5f'',
            host := ''example.com'', compressed := True, persistent := False,
            buffer := request_header ''/upload'' ''example.com'' ''0a1b2c3d4e5f'' True False 7,
            content_length_offset := 154\<rparr>,
          ''POST /upload HTTP/1.1'' @ CRLF @ ''Host: example.com'' @ CRLF @
          ''User-Agent: pipe/0.0.1'' @ CRLF @ ''Accept: */*'' @ CRLF @
          ''LETV-TV-MAC: 0a1b2c3d4e5f'' @ CRLF @ ''LETV-ZIP: 1'' @ CRLF @
          ''Connection: close'' @ CRLF @ ''Content-Length: 7'' @ CRLF @ CRLF,
          159)"
proof -
  have len: "length (prefix_of
      (PostHeader_init\<lparr>path := Some ''/upload'', mac := Some ''0a1b2c3d4e5f'',
         host := ''example.com'', compressed := True, persistent := False\<rparr>)
      ''/upload'' ''0a1b2c3d4e5f'') = 154"
    by (simp add: evaluate)
  show ?thesis
    using len
      Generate_exact_header [of
        "PostHeader_init\<lparr>path := Some ''/upload'', mac := Some ''0a1b2c3d4e5f'',
           host := ''example.com'', compressed := True, persistent := False\<rparr>"
        "''/upload''" "''0a1b2c3d4e5f''" 1234]
      Generate_exact_header [of
        "PostHeader_init\<lparr>path := Some ''/upload'', mac := Some ''0a1b2c3d4e5f'',
           host := ''example.com'', compressed := True, persistent := False,
           buffer := request_header ''/upload'' ''example.com'' ''0a1b2c3d4e5f'' True False 1234,
           content_length_offset := 154\<rparr>"
        "''/upload''" "''0a1b2c3d4e5f''" 7]
    by (simp add: PostHeader_init_def prefix_current_def prefix_of_def pattern_def
        program_def version_def request_header_def CRLF_def zu.simps char_of_def bit_0)
qed

section \<open>Values that do not fit\<close>




section \<open>RateGovernor\<close>

text \<open>
  C4. The allowance of a tick is \<open>R \<sqdot> \<Delta>t / 1_000_000\<close> rounded down, clamped to the
  remaining unsent body bytes and to the buffer capacity: it is the least of the three,
  so it exceeds none of them.
\<close>

theorem allowance_floor_clamped:
  "allowance R dt remaining cap = min (R * dt div 1000000) (min remaining cap) \<and>
   int (R * dt div 1000000) = \<lfloor>real R * real dt / 1000000\<rfloor> \<and>
   allowance R dt remaining cap \<le> R * dt div 1000000 \<and>
   allowance R dt remaining cap \<le> remaining \<and>
   allowance R dt remaining cap \<le> cap"
proof -
  have "\<lfloor>real (R * dt) / real (1000000::nat)\<rfloor> = int (R * dt div 1000000)"
    by (rule floor_divide_of_nat_eq)
  then have "int (R * dt div 1000000) = \<lfloor>real R * real dt / 1000000\<rfloor>"
    by simp
  then show ?thesis
    by (simp add: allowance_def Let_def min_def)
qed

theorem allowance_floor_clamped_witness:
  "allowance 12500 40000 1000000 1048576 = 500 \<and>
   allowance 12500 40000 300 1048576 = 300 \<and>
   allowance 12500 40000 1000000 256 = 256 \<and>
   allowance 12500 79 1000000 1048576 = 0"
  using allowance_floor_clamped [of 12500 40000 1000000 1048576]
    allowance_floor_clamped [of 12500 40000 300 1048576]
    allowance_floor_clamped [of 12500 40000 1000000 256]
    allowance_floor_clamped [of 12500 79 1000000 1048576]
  by simp

section \<open>TransferWindowGuard\<close>

lemma transfers_Cons:
  "transfers t (d # ds) = (if d = (t, True) then Suc (transfers t ds) else transfers t ds)"
  by (simp add: transfers_def)

lemma transfers_Nil: "transfers t [] = 0"
  by (simp add: transfers_def)

lemma window_idle_bound:
  "idle_transfer_n c \<le> il \<Longrightarrow> idle_transfer_n c + transfers Idle (window il bl c ts) \<le> il"
proof (induction ts arbitrary: c)
  case Nil
  then show ?case by (simp add: transfers_Nil)
next
  case (Cons t ts)
  show ?case
  proof (cases "CheckTransfer il bl t c")
    case True
    then show ?thesis
      using Cons.IH [of "count_transfer t c"] Cons.prems
      by (cases t) (auto simp: transfers_Cons CheckTransfer_def count_transfer_def)
  next
    case False
    then show ?thesis
      using Cons.IH [of c] Cons.prems by (simp add: transfers_Cons)
  qed
qed

lemma window_busy_bound:
  "busy_transfer_n c \<le> bl \<Longrightarrow> busy_transfer_n c + transfers Busy (window il bl c ts) \<le> bl"
proof (induction ts arbitrary: c)
  case Nil
  then show ?case by (simp add: transfers_Nil)
next
  case (Cons t ts)
  show ?case
  proof (cases "CheckTransfer il bl t c")
    case True
    then show ?thesis
      using Cons.IH [of "count_transfer t c"] Cons.prems
      by (cases t) (auto simp: transfers_Cons CheckTransfer_def count_transfer_def)
  next
    case False
    then show ?thesis
      using Cons.IH [of c] Cons.prems by (simp add: transfers_Cons)
  qed
qed

lemma window_end_counts:
  "idle_transfer_n (window_end il bl c ts) =
     idle_transfer_n c + transfers Idle (window il bl c ts) \<and>
   busy_transfer_n (window_end il bl c ts) =
     busy_transfer_n c + transfers Busy (window il bl c ts)"
proof (induction ts arbitrary: c)
  case Nil
  then show ?case by (simp add: transfers_Nil)
next
  case (Cons t ts)
  then show ?case
    by (cases t) (auto simp: transfers_Cons count_transfer_def)
qed

text \<open>
  C5. A transfer is permitted at a tick exactly when the tick is idle and the idle count
  is below the idle limit, or the tick is busy and the busy count is below the busy
  limit. Every window starts from counters that are zero; the counters at its end are
  the numbers of idle and of busy transfers permitted in it; and in no window of a run
  are there more idle transfers than the idle limit or more busy transfers than the busy
  limit.
\<close>

theorem CheckTransfer_window:
  "(CheckTransfer il bl t c \<longleftrightarrow>
      (t = Idle \<and> idle_transfer_n c < il) \<or> (t = Busy \<and> busy_transfer_n c < bl)) \<and>
   idle_transfer_n window_start = 0 \<and> busy_transfer_n window_start = 0 \<and>
   (\<forall>ts \<in> set tss.
      idle_transfer_n (window_end il bl window_start ts) =
        transfers Idle (window il bl window_start ts) \<and>
      busy_transfer_n (window_end il bl window_start ts) =
        transfers Busy (window il bl window_start ts)) \<and>
   (\<forall>ds \<in> set (windows il bl tss). transfers Idle ds \<le> il \<and> transfers Busy ds \<le> bl)"
proof -
  have a: "transfers Idle (window il bl window_start ts) \<le> il" for ts
    using window_idle_bound [of window_start il bl ts] by (simp add: window_start_def)
  have b: "transfers Busy (window il bl window_start ts) \<le> bl" for ts
    using window_busy_bound [of window_start bl il ts] by (simp add: window_start_def)
  have c: "idle_transfer_n (window_end il bl window_start ts) =
        transfers Idle (window il bl window_start ts) \<and>
      busy_transfer_n (window_end il bl window_start ts) =
        transfers Busy (window il bl window_start ts)" for ts
    using window_end_counts [of il bl window_start ts] by (simp add: window_start_def)
  show ?thesis
    using a b c by (auto simp: windows_def CheckTransfer_def window_start_def)
qed

theorem CheckTransfer_window_witness:
  "windows 1 3 [[Idle, Busy, Idle, Busy, Busy, Busy, Busy], [Busy, Idle]] =
     [[(Idle, True), (Busy, True), (Idle, False), (Busy, True), (Busy, True),
       (Busy, False), (Busy, False)],
      [(Busy, True), (Idle, True)]] \<and>
   transfers Idle
     [(Idle, True), (Busy, True), (Idle, False), (Busy, True), (Busy, True),
      (Busy, False), (Busy, False)] = 1 \<and>
   transfers Busy
     [(Idle, True), (Busy, True), (Idle, False), (Busy, True), (Busy, True),
      (Busy, False), (Busy, False)] = 3 \<and>
   window_end 1 3 window_start [Idle, Busy, Idle, Busy, Busy, Busy, Busy] =
     \<lparr>idle_transfer_n = 1, busy_transfer_n = 3\<rparr> \<and>
   CheckTransfer 1 3 Idle window_start \<and>
   \<not> CheckTransfer 1 3 Idle \<lparr>idle_transfer_n = 1, busy_transfer_n = 3\<rparr>"
  using CheckTransfer_window [of 1 3 Idle window_start
      "[[Idle, Busy, Idle, Busy, Busy, Busy, Busy], [Busy, Idle]]"]
  by (simp add: windows_def window_start_def CheckTransfer_def count_transfer_def transfers_def)

section \<open>Rollback\<close>
























end
